theory Spec2Isabelle
  imports Complex_Main "HOL-Library.Log_Nat"
begin

section \<open>Data model (src/App.tsx, lines 9-18)\<close>

text \<open>
  A JavaScript \<open>Date\<close> is modelled by its epoch value in milliseconds
  (\<open>getTime()\<close>), an \<open>int\<close>.  The optional field \<open>completionDate?: Date\<close> is an
  \<open>option\<close>: \<open>None\<close> stands for an absent or \<open>undefined\<close> field.  The numeric
  \<open>id\<close> is an \<open>int\<close>; the field is called \<open>id_task\<close> because \<open>id\<close> is the identity
  function of HOL.
\<close>

type_synonym date = int

record task =
  id_task :: int
  name :: string
  description :: string
  deadlineDate :: date
  safeDate :: date
  completed :: bool
  completionDate :: "date option"

section \<open>Clock and date arithmetic (lines 6, 20-23)\<close>

definition msPerHour :: int where
  "msPerHour = 3600000"

definition msPerDay :: int where
  "msPerDay = 86400000"

text \<open>
  \<open>differenceInDays\<close> and \<open>isAfter\<close> are imported from the library date-fns.
  \<open>differenceInDays(dateLeft, dateRight)\<close> is the number of full days between the
  two dates, an integer: a fraction of a day is dropped, towards zero, whichever date
  is the later one.  \<open>isAfter(date, dateToCompare)\<close> compares the epoch values.
  Local time is taken at a fixed offset from UTC (no daylight-saving change between
  the two dates), where a full day is \<open>msPerDay\<close> milliseconds.
\<close>

definition differenceInDays :: "date \<Rightarrow> date \<Rightarrow> int" where
  "differenceInDays dateLeft dateRight =
     sgn (dateLeft - dateRight) * (\<bar>dateLeft - dateRight\<bar> div msPerDay)"

definition isAfter :: "date \<Rightarrow> date \<Rightarrow> bool" where
  "isAfter d dateToCompare = (d > dateToCompare)"

text \<open>
  \<open>getRemainingDays\<close> (lines 20-23): \<open>Math.ceil(differenceInDays(deadline, new Date()))\<close>.
  The clock reading \<open>new Date()\<close> is the parameter \<open>currentDate\<close>.
\<close>

definition getRemainingDays :: "date \<Rightarrow> date \<Rightarrow> int" where
  "getRemainingDays deadline currentDate =
     \<lceil>rat_of_int (differenceInDays deadline currentDate)\<rceil>"

text \<open>
  \<open>Date.prototype.setHours(h, m, s, ms)\<close> keeps the local calendar day of the date
  and sets its local time of day.  \<open>tz\<close> is the offset of local time from UTC in
  milliseconds.
\<close>

definition setHours :: "int \<Rightarrow> date \<Rightarrow> int \<Rightarrow> int \<Rightarrow> int \<Rightarrow> int \<Rightarrow> date" where
  "setHours tz d h m s ms =
     ((d + tz) div msPerDay) * msPerDay + h * msPerHour + m * 60000 + s * 1000 + ms - tz"

text \<open>The local calendar day of an instant (days since the epoch) and its local time of day.\<close>

definition localDay :: "int \<Rightarrow> date \<Rightarrow> int" where
  "localDay tz d = (d + tz) div msPerDay"

definition localTimeOfDay :: "int \<Rightarrow> date \<Rightarrow> int" where
  "localTimeOfDay tz d = (d + tz) mod msPerDay"

section \<open>Notification scheduler (lines 26-98)\<close>

text \<open>
  A notification request handed to \<open>Notifee.createTriggerNotification\<close>: its title,
  its body and the timestamp of its trigger.  The \<open>android\<close> part (channel and press
  action) is the same constant in every request and is left out.
\<close>

record notification =
  title :: string
  body :: string
  timestamp :: date

text \<open>The decimal text a template literal gives an integer.\<close>

function digits :: "nat \<Rightarrow> string" where
  "digits n = (if n < 10 then [char_of (48 + n)]
               else digits (n div 10) @ [char_of (48 + n mod 10)])"
  by pat_completeness auto
termination
  by (relation "measure (\<lambda>n. n)") auto

definition toString :: "int \<Rightarrow> string" where
  "toString i = (if i < 0 then CHR ''-'' # digits (nat (- i)) else digits (nat i))"

definition scheduleTimes :: "(int \<times> int) list" where
  "scheduleTimes = [(8, 0), (12, 0), (18, 0)]"

text \<open>
  \<open>scheduleNotifications\<close> returns the requests in the order in which the function
  creates them.  Every \<open>new Date()\<close> of one call reads the same instant \<open>now\<close>.
\<close>

definition scheduleNotifications :: "int \<Rightarrow> task \<Rightarrow> date \<Rightarrow> notification list" where
  "scheduleNotifications tz task now =
     (let daysLeft = getRemainingDays (deadlineDate task) now in
      (if daysLeft > 0
       then map (\<lambda>(hour, minutes).
                  \<lparr>title = ''Task Reminder'',
                   body = ''Task '' @ [CHR 0x22] @ name task @ [CHR 0x22] @ '' is due in ''
                          @ toString daysLeft
                          @ '' day(s). Keep working toward the deadline!'',
                   timestamp = setHours tz now hour minutes 0 0\<rparr>) scheduleTimes
       else [])
      @ [\<lparr>title = ''Task Reminder'',
          body = ''Task '' @ [CHR 0x22] @ name task @ [CHR 0x22]
                 @ '' is due today. Please complete it!'',
          timestamp = safeDate task\<rparr>,
         \<lparr>title = ''Task Deadline Reminder'',
          body = ''Task '' @ [CHR 0x22] @ name task @ [CHR 0x22] @ '' is due soon. ''
                 @ toString daysLeft @ '' days left until the deadline.'',
          timestamp = deadlineDate task\<rparr>])"

section \<open>Task store: the lifecycle operations of \<open>App\<close> (lines 355-373, 452-472)\<close>

text \<open>
  Each operation computes a new array from the state variable \<open>tasks\<close> and hands it
  to \<open>setTasks\<close> and \<open>saveTasks\<close>.  The functions below return that new array;
  \<open>new Date()\<close> is the parameter \<open>now\<close>.
\<close>

definition markAsCompleted :: "task list \<Rightarrow> int \<Rightarrow> date \<Rightarrow> task list" where
  "markAsCompleted tasks ident now =
     map (\<lambda>task. if id_task task = ident
                  then task\<lparr>completed := True, completionDate := Some now\<rparr>
                  else task) tasks"

definition restoreTask :: "task list \<Rightarrow> int \<Rightarrow> task list" where
  "restoreTask tasks ident =
     map (\<lambda>task. if id_task task = ident
                  then task\<lparr>completed := False, completionDate := None\<rparr>
                  else task) tasks"

text \<open>\<open>addTask\<close> writes \<open>task.completed = false\<close> into its argument and appends it.\<close>

definition addTask :: "task list \<Rightarrow> task \<Rightarrow> task list" where
  "addTask tasks task = tasks @ [task\<lparr>completed := False\<rparr>]"

text \<open>
  \<open>editTask\<close> replaces every task whose id is the id of \<open>updatedTask\<close> by
  \<open>{ ...updatedTask, completed: task.completed }\<close>: all fields of \<open>updatedTask\<close>,
  \<open>completionDate\<close> included, and the \<open>completed\<close> flag of the stored task.
\<close>

definition editTask :: "task list \<Rightarrow> task \<Rightarrow> task list" where
  "editTask tasks updatedTask =
     map (\<lambda>task. if id_task task = id_task updatedTask
                  then updatedTask\<lparr>completed := completed task\<rparr>
                  else task) tasks"

definition deleteTask :: "task list \<Rightarrow> int \<Rightarrow> task list" where
  "deleteTask tasks taskId = filter (\<lambda>task. id_task task \<noteq> taskId) tasks"

section \<open>The add and edit form and the application state (lines 173-198, 341-516)\<close>

text \<open>
  \<open>handleAddTask\<close> (lines 181-198) rejects an empty name or description with an alert
  (\<open>None\<close>); otherwise it builds \<open>newTask\<close>, whose id is the id of \<open>initialValues\<close>
  when the form edits a task and the clock reading \<open>new Date().getTime()\<close> when it
  adds one.  The object literal has no \<open>completed\<close> and no \<open>completionDate\<close> field:
  \<open>completionDate\<close> is \<open>None\<close>, and \<open>completed\<close>, written by \<open>addTask\<close> and by
  \<open>editTask\<close> before anything reads it, is \<open>False\<close>.
\<close>

definition handleAddTask ::
  "task option \<Rightarrow> string \<Rightarrow> string \<Rightarrow> date \<Rightarrow> date \<Rightarrow> date \<Rightarrow> task option" where
  "handleAddTask initialValues name' description' deadlineDate' safeDate' now =
     (if name' = [] \<or> description' = [] then None
      else Some \<lparr>id_task = (case initialValues of Some iv \<Rightarrow> id_task iv | None \<Rightarrow> now),
                 name = name', description = description',
                 deadlineDate = deadlineDate', safeDate = safeDate',
                 completed = False, completionDate = None\<rparr>)"

text \<open>
  The state of \<open>App\<close>: the task collection (the state variable \<open>tasks\<close>) and the
  requests handed to the notification platform so far.  An event is one user action
  with the clock reading at which it happens.  The form calls its \<open>addTask\<close> property
  (\<open>addTask\<close> on the add screen, \<open>editTask\<close> on the edit screen), which schedules the
  notifications of the task, and then schedules them a second time itself.
\<close>

record app =
  stored :: "task list"
  pending :: "notification list"

datatype event =
    Add string string date date
  | Edit task string string date date
  | Complete int
  | Restore int
  | Delete int

fun step :: "int \<Rightarrow> date \<Rightarrow> event \<Rightarrow> app \<Rightarrow> app" where
  "step tz now (Add name' description' deadlineDate' safeDate') st =
     (case handleAddTask None name' description' deadlineDate' safeDate' now of
        None \<Rightarrow> st
      | Some newTask \<Rightarrow>
          \<lparr>stored = addTask (stored st) newTask,
           pending = pending st
             @ scheduleNotifications tz (newTask\<lparr>completed := False\<rparr>) now
             @ scheduleNotifications tz (newTask\<lparr>completed := False\<rparr>) now\<rparr>)"
| "step tz now (Edit initialValues name' description' deadlineDate' safeDate') st =
     (case handleAddTask (Some initialValues) name' description' deadlineDate' safeDate' now of
        None \<Rightarrow> st
      | Some newTask \<Rightarrow>
          \<lparr>stored = editTask (stored st) newTask,
           pending = pending st
             @ scheduleNotifications tz newTask now
             @ scheduleNotifications tz newTask now\<rparr>)"
| "step tz now (Complete ident) st = st\<lparr>stored := markAsCompleted (stored st) ident now\<rparr>"
| "step tz now (Restore ident) st = st\<lparr>stored := restoreTask (stored st) ident\<rparr>"
| "step tz now (Delete ident) st = st\<lparr>stored := deleteTask (stored st) ident\<rparr>"

fun run :: "int \<Rightarrow> (date \<times> event) list \<Rightarrow> app \<Rightarrow> app" where
  "run tz [] st = st"
| "run tz ((now, ev) # evs) st = run tz evs (step tz now ev st)"

definition initial :: app where
  "initial = \<lparr>stored = [], pending = []\<rparr>"

text \<open>
  Every add of the run takes place at a clock reading that is the id of no stored task.
\<close>

fun addsFresh :: "int \<Rightarrow> (date \<times> event) list \<Rightarrow> app \<Rightarrow> bool" where
  "addsFresh tz [] st = True"
| "addsFresh tz ((now, ev) # evs) st =
     ((case ev of Add n d dl sf \<Rightarrow> now \<notin> set (map id_task (stored st)) | _ \<Rightarrow> True)
      \<and> addsFresh tz evs (step tz now ev st))"

section \<open>JavaScript numbers\<close>

text \<open>
  A JavaScript number is an IEEE 754 double: 53 significant bits, and every division and
  multiplication returns the double nearest to the exact result, a tie going to the
  even significand.  \<open>Number m e\<close> is the value \<open>m * 2 ^ e\<close>.  The model covers the
  non-negative finite values and leaves the exponent unbounded; the statistics divide
  and multiply array lengths and 100, far from overflow and underflow.
\<close>

datatype number = Number int int

fun valueOf :: "number \<Rightarrow> real" where
  "valueOf (Number m e) = real_of_int m * 2 powi e"

text \<open>A number as a fraction of two integers, the denominator a power of two.\<close>

fun numer :: "number \<Rightarrow> int" where
  "numer (Number m e) = m * 2 ^ nat e"

fun denom :: "number \<Rightarrow> int" where
  "denom (Number m e) = 2 ^ nat (- e)"

text \<open>The integer nearest to \<open>n / d\<close> for \<open>d > 0\<close>, a tie going to the even one.\<close>

definition roundHalfEven :: "int \<Rightarrow> int \<Rightarrow> int" where
  "roundHalfEven n d =
     (let q = n div d; r = n mod d
      in if 2 * r < d then q else if d < 2 * r then q + 1 else if even q then q else q + 1)"

text \<open>
  The exponent \<open>e\<close> that puts \<open>n / d / 2 ^ e\<close> between \<open>2 ^ 52\<close> and \<open>2 ^ 53\<close>, for
  positive \<open>n\<close> and \<open>d\<close>, and the double nearest to \<open>n / d\<close>.
\<close>

definition exponent :: "int \<Rightarrow> int \<Rightarrow> int" where
  "exponent n d =
     (let k = bitlen n - bitlen d - 53
      in if n * 2 ^ nat (- k) < 2 ^ 53 * (d * 2 ^ nat k) then k else k + 1)"

definition binary64 :: "int \<Rightarrow> int \<Rightarrow> number" where
  "binary64 n d =
     (let e = exponent n d
      in Number (roundHalfEven (n * 2 ^ nat (- e)) (d * 2 ^ nat e)) e)"

text \<open>An integer below \<open>2 ^ 53\<close>, such as the length of an array, is a number as it is.\<close>

definition fromNat :: "nat \<Rightarrow> number" where
  "fromNat n = Number (int n) 0"

text \<open>\<open>x / y\<close> for \<open>y > 0\<close>, and \<open>x * y\<close>.\<close>

definition divNumber :: "number \<Rightarrow> number \<Rightarrow> number" where
  "divNumber x y =
     (if numer x = 0 then Number 0 0 else binary64 (numer x * denom y) (denom x * numer y))"

definition mulNumber :: "number \<Rightarrow> number \<Rightarrow> number" where
  "mulNumber x y =
     (if numer x = 0 \<or> numer y = 0 then Number 0 0
      else binary64 (numer x * numer y) (denom x * denom y))"

section \<open>Statistics (lines 235-279)\<close>

text \<open>
  \<open>getTaskStats\<close> counts in two \<open>forEach\<close> loops over mutable counters; the loops
  are folds over the record of results.  \<open>classifyStep\<close> is the body of the first
  loop (lines 250-260), \<open>overdueStep\<close> the body of the second (lines 264-266).
  \<open>completionRate\<close> is \<open>totalTasks ? (completedCount / totalTasks) * 100 : 0\<close>.
\<close>

record stats =
  totalTasks :: nat
  completedCount :: nat
  completionRate :: number
  beforeSafeDate :: nat
  onSafeDate :: nat
  onDeadline :: nat
  afterDeadline :: nat
  stillIncompleteAfterDeadline :: nat

definition classifyStep :: "task \<Rightarrow> stats \<Rightarrow> stats" where
  "classifyStep task s =
     (case completionDate task of
        None \<Rightarrow> s
      | Some c \<Rightarrow>
          if c < safeDate task then s\<lparr>beforeSafeDate := beforeSafeDate s + 1\<rparr>
          else if differenceInDays c (safeDate task) = 0 then s\<lparr>onSafeDate := onSafeDate s + 1\<rparr>
          else if differenceInDays c (deadlineDate task) = 0 then s\<lparr>onDeadline := onDeadline s + 1\<rparr>
          else if isAfter c (deadlineDate task) then s\<lparr>afterDeadline := afterDeadline s + 1\<rparr>
          else s)"

definition overdueStep :: "date \<Rightarrow> task \<Rightarrow> stats \<Rightarrow> stats" where
  "overdueStep currentDate task s =
     (if \<not> completed task \<and> isAfter currentDate (deadlineDate task)
      then s\<lparr>stillIncompleteAfterDeadline := stillIncompleteAfterDeadline s + 1\<rparr>
      else s)"

definition getTaskStats :: "task list \<Rightarrow> date \<Rightarrow> stats" where
  "getTaskStats tasks currentDate =
     (let completedTasks = filter completed tasks;
          s0 = \<lparr>totalTasks = length tasks,
                completedCount = length completedTasks,
                completionRate =
                  (if length tasks \<noteq> 0
                   then mulNumber
                          (divNumber (fromNat (length completedTasks)) (fromNat (length tasks)))
                          (fromNat 100)
                   else fromNat 0),
                beforeSafeDate = 0, onSafeDate = 0, onDeadline = 0, afterDeadline = 0,
                stillIncompleteAfterDeadline = 0\<rparr>
      in fold (overdueStep currentDate) tasks (fold classifyStep completedTasks s0))"

text \<open>
  The classification as the specification words it: four rules in a fixed order, and a
  completed task with a completion date belongs to the first rule it satisfies.
\<close>

datatype bucket = BeforeSafeDate | OnSafeDate | OnDeadline | AfterDeadline

fun bucketCount :: "bucket \<Rightarrow> stats \<Rightarrow> nat" where
  "bucketCount BeforeSafeDate s = beforeSafeDate s"
| "bucketCount OnSafeDate s = onSafeDate s"
| "bucketCount OnDeadline s = onDeadline s"
| "bucketCount AfterDeadline s = afterDeadline s"

fun bucketRule :: "bucket \<Rightarrow> task \<Rightarrow> date \<Rightarrow> bool" where
  "bucketRule BeforeSafeDate task c = (c < safeDate task)"
| "bucketRule OnSafeDate task c = (differenceInDays c (safeDate task) = 0)"
| "bucketRule OnDeadline task c = (differenceInDays c (deadlineDate task) = 0)"
| "bucketRule AfterDeadline task c = (deadlineDate task < c)"

definition bucketOrder :: "bucket list" where
  "bucketOrder = [BeforeSafeDate, OnSafeDate, OnDeadline, AfterDeadline]"

definition firstMatch :: "task \<Rightarrow> bucket option" where
  "firstMatch task =
     (case completionDate task of
        None \<Rightarrow> None
      | Some c \<Rightarrow> if completed task then find (\<lambda>b. bucketRule b task c) bucketOrder else None)"

section \<open>Notions of the specification and scenario data\<close>

text \<open>
  The remaining days as the specification words them: the ceiling of the difference
  between the deadline and the current time, in days.
\<close>

definition specRemainingDays :: "date \<Rightarrow> date \<Rightarrow> int" where
  "specRemainingDays deadline currentDate =
     \<lceil>rat_of_int (deadline - currentDate) / rat_of_int msPerDay\<rceil>"

text \<open>The invariant of a stored task: it is completed exactly when it has a completion date.\<close>

definition completionConsistent :: "task \<Rightarrow> bool" where
  "completionConsistent task = (completed task = (completionDate task \<noteq> None))"

text \<open>The task of the end-to-end scenario: added on 2025-01-01, safe date 2025-01-05,
  deadline 2025-01-10 (all at 00:00 UTC).\<close>

definition report :: task where
  "report = \<lparr>id_task = 1735689600000, name = ''Write report'', description = ''Q4'',
             deadlineDate = 1736467200000, safeDate = 1736035200000,
             completed = False, completionDate = None\<rparr>"

text \<open>The scenario task, completed on 2025-01-04.\<close>

definition reportDone :: task where
  "reportDone = report\<lparr>completed := True, completionDate := Some 1735948800000\<rparr>"

section \<open>Properties of the lifecycle operations\<close>

lemma map_if_absent:
  "ident \<notin> set (map id_task tasks) \<Longrightarrow>
     map (\<lambda>task. if id_task task = ident then f task else task) tasks = tasks"
  by (induction tasks) auto

lemma filter_absent:
  "ident \<notin> set (map id_task tasks) \<Longrightarrow>
     filter (\<lambda>task. id_task task \<noteq> ident) tasks = tasks"
  by (induction tasks) auto

text \<open>
  Claim C8.  For every collection and every id that no task of the collection has,
  completing, restoring and deleting that id return the collection itself: the same
  tasks in the same order, every field equal.
\<close>

theorem absent_id_noop:
  assumes "ident \<notin> set (map id_task tasks)"
  shows "markAsCompleted tasks ident now = tasks
       \<and> restoreTask tasks ident = tasks
       \<and> deleteTask tasks ident = tasks"
  using assms
  by (simp add: markAsCompleted_def restoreTask_def deleteTask_def
        map_if_absent filter_absent)

theorem absent_id_noop_witness:
  "(let ts = [\<lparr>id_task = 1, name = ''a'', description = ''b'', deadlineDate = 20,
               safeDate = 10, completed = True, completionDate = Some 5\<rparr>,
             \<lparr>id_task = 2, name = ''c'', description = ''d'', deadlineDate = 40,
               safeDate = 30, completed = False, completionDate = None\<rparr>]
    in (3::int) \<notin> set (map id_task ts)
       \<and> markAsCompleted ts 3 99 = ts
       \<and> restoreTask ts 3 = ts
       \<and> deleteTask ts 3 = ts)"
  unfolding Let_def
  by (rule conjI, simp, rule absent_id_noop [where now = 99], simp)

text \<open>
  Claim C10.  Completing is unconditional on the state of the task: a task that is
  already completed has its completion date overwritten by the current time, and
  nothing else of it changes.
\<close>

theorem markAsCompleted_overwrites:
  assumes "i < length tasks" and "id_task (tasks ! i) = ident" and "completed (tasks ! i)"
  shows "completionDate (markAsCompleted tasks ident now ! i) = Some now
       \<and> markAsCompleted tasks ident now ! i = (tasks ! i)\<lparr>completionDate := Some now\<rparr>"
  using assms by (simp add: markAsCompleted_def)

theorem markAsCompleted_overwrites_witness:
  "(let ts = [\<lparr>id_task = 1, name = ''a'', description = ''b'', deadlineDate = 20,
               safeDate = 10, completed = True, completionDate = Some 5\<rparr>]
    in (0::nat) < length ts \<and> id_task (ts ! 0) = 1 \<and> completed (ts ! 0)
       \<and> completionDate (ts ! 0) = Some 5
       \<and> completionDate (markAsCompleted ts 1 99 ! 0) = Some 99)"
  unfolding Let_def
  using markAsCompleted_overwrites [of 0
      "[\<lparr>id_task = 1, name = ''a'', description = ''b'', deadlineDate = 20,
         safeDate = 10, completed = True, completionDate = Some 5\<rparr>]" 1 99]
  by simp

subsection \<open>Editing\<close>

lemma editTask_keeps_id_and_completed:
  "map id_task (editTask tasks updatedTask) = map id_task tasks
   \<and> map completed (editTask tasks updatedTask) = map completed tasks"
  by (induction tasks) (auto simp: editTask_def)

lemma editTask_takes_completionDate:
  "i < length tasks \<Longrightarrow> id_task (tasks ! i) = id_task updatedTask \<Longrightarrow>
   completionDate (editTask tasks updatedTask ! i) = completionDate updatedTask"
  by (simp add: editTask_def)


subsection \<open>Completed exactly when a completion date is set\<close>

lemma consistent_markAsCompleted:
  "list_all completionConsistent tasks \<Longrightarrow>
   list_all completionConsistent (markAsCompleted tasks ident now)"
  by (induction tasks) (auto simp: markAsCompleted_def completionConsistent_def)

lemma consistent_restoreTask:
  "list_all completionConsistent tasks \<Longrightarrow>
   list_all completionConsistent (restoreTask tasks ident)"
  by (induction tasks) (auto simp: restoreTask_def completionConsistent_def)

lemma consistent_deleteTask:
  "list_all completionConsistent tasks \<Longrightarrow>
   list_all completionConsistent (deleteTask tasks ident)"
  by (induction tasks) (auto simp: deleteTask_def)

lemma consistent_addTask:
  "list_all completionConsistent tasks \<Longrightarrow> completionDate task = None \<Longrightarrow>
   list_all completionConsistent (addTask tasks task)"
  by (simp add: addTask_def completionConsistent_def)

lemma consistent_editTask_active:
  "list_all completionConsistent tasks \<Longrightarrow> completionDate updatedTask = None \<Longrightarrow>
   list_all (\<lambda>task. id_task task = id_task updatedTask \<longrightarrow> \<not> completed task) tasks \<Longrightarrow>
   list_all completionConsistent (editTask tasks updatedTask)"
  by (induction tasks) (auto simp: editTask_def completionConsistent_def)

lemma consistent_step:
  "list_all completionConsistent (stored st) \<Longrightarrow>
   (case ev of
      Edit iv n d dl sf \<Rightarrow>
        list_all (\<lambda>task. id_task task = id_task iv \<longrightarrow> \<not> completed task) (stored st)
    | _ \<Rightarrow> True) \<Longrightarrow>
   list_all completionConsistent (stored (step tz now ev st))"
proof (cases ev)
  case (Add n d dl sf)
  assume "list_all completionConsistent (stored st)"
  then show ?thesis
    unfolding Add
    by (auto simp: handleAddTask_def split: option.splits if_splits intro!: consistent_addTask)
next
  case (Edit iv n d dl sf)
  assume "list_all completionConsistent (stored st)"
    and "case ev of
      Edit iv n d dl sf \<Rightarrow>
        list_all (\<lambda>task. id_task task = id_task iv \<longrightarrow> \<not> completed task) (stored st)
    | _ \<Rightarrow> True"
  then show ?thesis
    unfolding Edit
    by (auto simp: handleAddTask_def split: option.splits if_splits
          intro!: consistent_editTask_active)
next
  case (Complete i)
  assume "list_all completionConsistent (stored st)"
  then show ?thesis unfolding Complete by (simp add: consistent_markAsCompleted)
next
  case (Restore i)
  assume "list_all completionConsistent (stored st)"
  then show ?thesis unfolding Restore by (simp add: consistent_restoreTask)
next
  case (Delete i)
  assume "list_all completionConsistent (stored st)"
  then show ?thesis unfolding Delete by (simp add: consistent_deleteTask)
qed


subsection \<open>Distinct ids\<close>

lemma ids_markAsCompleted: "map id_task (markAsCompleted tasks ident now) = map id_task tasks"
  by (induction tasks) (auto simp: markAsCompleted_def)

lemma ids_restoreTask: "map id_task (restoreTask tasks ident) = map id_task tasks"
  by (induction tasks) (auto simp: restoreTask_def)

lemma ids_editTask: "map id_task (editTask tasks updatedTask) = map id_task tasks"
  by (induction tasks) (auto simp: editTask_def)

lemma ids_deleteTask:
  "map id_task (deleteTask tasks ident) = filter (\<lambda>i. i \<noteq> ident) (map id_task tasks)"
  by (induction tasks) (auto simp: deleteTask_def)

lemma ids_addTask: "map id_task (addTask tasks task) = map id_task tasks @ [id_task task]"
  by (simp add: addTask_def)

lemma distinct_step:
  "distinct (map id_task (stored st)) \<Longrightarrow>
   (case ev of Add n d dl sf \<Rightarrow> now \<notin> set (map id_task (stored st)) | _ \<Rightarrow> True) \<Longrightarrow>
   distinct (map id_task (stored (step tz now ev st)))"
  by (cases ev)
     (auto simp: ids_markAsCompleted ids_restoreTask ids_editTask ids_deleteTask ids_addTask
        handleAddTask_def split: option.splits if_splits)

lemma distinct_run:
  "distinct (map id_task (stored st)) \<Longrightarrow> addsFresh tz evs st \<Longrightarrow>
   distinct (map id_task (stored (run tz evs st)))"
proof (induction evs arbitrary: st)
  case Nil
  then show ?case by simp
next
  case (Cons e evs)
  obtain now ev where e: "e = (now, ev)" by (cases e)
  from Cons.prems have "distinct (map id_task (stored (step tz now ev st)))"
    unfolding e by (intro distinct_step) simp_all
  moreover from Cons.prems have "addsFresh tz evs (step tz now ev st)"
    unfolding e by simp
  ultimately show ?case unfolding e by (simp add: Cons.IH)
qed

text \<open>
  Claim C9, as the code has it.  The id of a new task is the clock reading of its add
  and nothing compares it with the ids in the collection.  After a run from the empty
  collection the ids are pairwise distinct when every add of the run takes place at a
  clock reading that is the id of no stored task; editing, completing and restoring
  keep the list of ids, deleting removes from it.
\<close>

theorem ids_distinct_when_adds_fresh:
  assumes "addsFresh tz evs initial"
  shows "distinct (map id_task (stored (run tz evs initial)))"
  using assms by (intro distinct_run) (simp_all add: initial_def)

theorem ids_distinct_when_adds_fresh_witness:
  "addsFresh 0 [(5, Add ''a'' ''b'' 9 7), (6, Add ''c'' ''d'' 9 7), (7, Complete 5),
                (8, Delete 6), (9, Add ''e'' ''f'' 9 7)] initial
   \<and> distinct (map id_task (stored (run 0
        [(5, Add ''a'' ''b'' 9 7), (6, Add ''c'' ''d'' 9 7), (7, Complete 5),
         (8, Delete 6), (9, Add ''e'' ''f'' 9 7)] initial)))"
proof -
  have fresh: "addsFresh 0 [(5, Add ''a'' ''b'' 9 7), (6, Add ''c'' ''d'' 9 7), (7, Complete 5),
                (8, Delete 6), (9, Add ''e'' ''f'' 9 7)] initial"
    by (simp add: initial_def handleAddTask_def addTask_def markAsCompleted_def deleteTask_def)
  from fresh ids_distinct_when_adds_fresh [OF fresh] show ?thesis by (rule conjI)
qed

text \<open>
  Claim C9 as stated fails: two adds at the same clock reading store two tasks with the
  same id.
\<close>

theorem duplicate_id_counterexample:
  "\<not> distinct (map id_task (stored (run 0
        [(5, Add ''a'' ''b'' 9 7), (5, Add ''c'' ''d'' 9 7)] initial)))"
  by (simp add: initial_def handleAddTask_def addTask_def)

section \<open>Properties of the date arithmetic and the scheduler\<close>

lemma getRemainingDays_differenceInDays:
  "getRemainingDays deadline now = differenceInDays deadline now"
  by (simp add: getRemainingDays_def)

text \<open>
  Claim C5.  \<open>differenceInDays\<close> has already dropped the fraction of a day when
  \<open>Math.ceil\<close> is applied, so \<open>getRemainingDays\<close> is the number of full days and not
  the ceiling: with the deadline 9 days and 12 hours after the current time it is 9,
  where the ceiling of the difference in days is 10.  For a deadline a whole number of
  days ahead (2025-01-10 seen from 2025-01-01) both are 9.
\<close>

theorem getRemainingDays_not_ceiling:
  "getRemainingDays 1736510400000 1735689600000 = 9
   \<and> specRemainingDays 1736510400000 1735689600000 = 10
   \<and> getRemainingDays 1736467200000 1735689600000 = 9
   \<and> specRemainingDays 1736467200000 1735689600000 = 9"
  by (simp add: getRemainingDays_differenceInDays differenceInDays_def specRemainingDays_def
        msPerDay_def ceiling_eq_iff)

lemma past_deadline_no_days_left: "deadline < now \<Longrightarrow> getRemainingDays deadline now \<le> 0"
  by (simp add: getRemainingDays_differenceInDays differenceInDays_def msPerDay_def
        mult_le_0_iff)

lemma div_day_offset:
  "0 \<le> x \<Longrightarrow> x < msPerDay \<Longrightarrow> (k * msPerDay + x) div msPerDay = k"
  by (simp add: msPerDay_def)

lemma mod_day_offset:
  "0 \<le> x \<Longrightarrow> x < msPerDay \<Longrightarrow> (k * msPerDay + x) mod msPerDay = x"
  by (simp add: msPerDay_def)

lemma localDay_setHours:
  "0 \<le> h * msPerHour + m * 60000 \<Longrightarrow> h * msPerHour + m * 60000 < msPerDay \<Longrightarrow>
   localDay tz (setHours tz d h m 0 0) = localDay tz d"
  using div_day_offset [of "h * msPerHour + m * 60000" "(d + tz) div msPerDay"]
  by (simp add: localDay_def setHours_def add.assoc)

lemma localTimeOfDay_setHours:
  "0 \<le> h * msPerHour + m * 60000 \<Longrightarrow> h * msPerHour + m * 60000 < msPerDay \<Longrightarrow>
   localTimeOfDay tz (setHours tz d h m 0 0) = h * msPerHour + m * 60000"
  using mod_day_offset [of "h * msPerHour + m * 60000" "(d + tz) div msPerDay"]
  by (simp add: localTimeOfDay_def setHours_def add.assoc)

text \<open>
  Claim C4.  When no day is left (\<open>daysLeft \<le> 0\<close>, which is the case whenever the
  deadline is in the past), \<open>scheduleNotifications\<close> creates exactly two requests,
  triggered at the safe date and at the deadline, in this order.  When \<open>daysLeft > 0\<close>
  it creates exactly five: three reminders triggered on the local calendar day of
  \<open>now\<close> at 08:00, 12:00 and 18:00 local time, then the safe-date and the deadline
  request.
\<close>

theorem scheduleNotifications_requests:
  "(getRemainingDays (deadlineDate task) now \<le> 0 \<longrightarrow>
      map timestamp (scheduleNotifications tz task now) = [safeDate task, deadlineDate task])
   \<and> (deadlineDate task < now \<longrightarrow> getRemainingDays (deadlineDate task) now \<le> 0)
   \<and> (getRemainingDays (deadlineDate task) now > 0 \<longrightarrow>
        length (scheduleNotifications tz task now) = 5
      \<and> map (localDay tz \<circ> timestamp) (take 3 (scheduleNotifications tz task now))
          = [localDay tz now, localDay tz now, localDay tz now]
      \<and> map (localTimeOfDay tz \<circ> timestamp) (take 3 (scheduleNotifications tz task now))
          = [8 * msPerHour, 12 * msPerHour, 18 * msPerHour]
      \<and> map timestamp (drop 3 (scheduleNotifications tz task now))
          = [safeDate task, deadlineDate task])"
proof (intro conjI impI)
  assume "getRemainingDays (deadlineDate task) now \<le> 0"
  then show "map timestamp (scheduleNotifications tz task now) = [safeDate task, deadlineDate task]"
    by (simp add: scheduleNotifications_def Let_def)
next
  assume "deadlineDate task < now"
  then show "getRemainingDays (deadlineDate task) now \<le> 0"
    by (rule past_deadline_no_days_left)
next
  assume pos: "getRemainingDays (deadlineDate task) now > 0"
  then show "length (scheduleNotifications tz task now) = 5"
    by (simp add: scheduleNotifications_def Let_def scheduleTimes_def)
  from pos show "map (localDay tz \<circ> timestamp) (take 3 (scheduleNotifications tz task now))
          = [localDay tz now, localDay tz now, localDay tz now]"
    by (simp add: scheduleNotifications_def Let_def scheduleTimes_def localDay_setHours
          msPerHour_def msPerDay_def)
  from pos show "map (localTimeOfDay tz \<circ> timestamp) (take 3 (scheduleNotifications tz task now))
          = [8 * msPerHour, 12 * msPerHour, 18 * msPerHour]"
    by (simp add: scheduleNotifications_def Let_def scheduleTimes_def localTimeOfDay_setHours
          msPerHour_def msPerDay_def)
  from pos show "map timestamp (drop 3 (scheduleNotifications tz task now))
          = [safeDate task, deadlineDate task]"
    by (simp add: scheduleNotifications_def Let_def scheduleTimes_def)
qed

text \<open>
  The scenario task at 2025-01-01 00:00 UTC, nine days before its deadline, and at
  2025-01-11 00:00 UTC, one day after it.
\<close>

theorem scheduleNotifications_requests_witness:
  "getRemainingDays (deadlineDate report) 1735689600000 = 9
   \<and> length (scheduleNotifications 0 report 1735689600000) = 5
   \<and> map timestamp (scheduleNotifications 0 report 1735689600000)
       = [1735718400000, 1735732800000, 1735754400000, 1736035200000, 1736467200000]
   \<and> deadlineDate report < 1736553600000
   \<and> getRemainingDays (deadlineDate report) 1736553600000 = - 1
   \<and> map timestamp (scheduleNotifications 0 report 1736553600000)
       = [1736035200000, 1736467200000]"
proof -
  have d9: "getRemainingDays (deadlineDate report) 1735689600000 = 9"
    by (simp add: report_def getRemainingDays_differenceInDays differenceInDays_def msPerDay_def)
  have dm1: "getRemainingDays (deadlineDate report) 1736553600000 = - 1"
    by (simp add: report_def getRemainingDays_differenceInDays differenceInDays_def msPerDay_def)
  have past: "deadlineDate report < 1736553600000"
    by (simp add: report_def)
  note five = scheduleNotifications_requests [of report 1735689600000 0]
  note two = scheduleNotifications_requests [of report 1736553600000 0]
  have a: "map timestamp (scheduleNotifications 0 report 1736553600000)
       = [1736035200000, 1736467200000]"
    using two dm1 by (simp add: report_def)
  have len: "length (scheduleNotifications 0 report 1735689600000) = 5"
    using five d9 by simp
  have b: "map timestamp (scheduleNotifications 0 report 1735689600000)
       = [1735718400000, 1735732800000, 1735754400000, 1736035200000, 1736467200000]"
    using d9 by (simp add: scheduleNotifications_def Let_def scheduleTimes_def setHours_def
          msPerDay_def msPerHour_def report_def)
  from d9 len a b past dm1 show ?thesis by simp
qed

section \<open>Properties of the numbers\<close>

lemma roundHalfEven_error:
  assumes "0 < d"
  shows "\<bar>real_of_int (roundHalfEven n d) - real_of_int n / real_of_int d\<bar> \<le> 1 / 2"
proof -
  define q where "q = n div d"
  define r where "r = n mod d"
  have r: "0 \<le> r" "r < d" using assms by (simp_all add: r_def)
  have "n = q * d + r" by (simp add: q_def r_def)
  then have "real_of_int n = real_of_int q * real_of_int d + real_of_int r"
    by (metis of_int_add of_int_mult)
  then have x: "real_of_int n / real_of_int d = real_of_int q + real_of_int r / real_of_int d"
    using assms by (simp add: field_simps)
  have lo: "0 \<le> real_of_int r / real_of_int d" using r assms by simp
  have hi: "real_of_int r / real_of_int d < 1" using r assms by simp
  have small: "2 * r < d \<Longrightarrow> real_of_int r / real_of_int d < 1 / 2"
    using assms by (simp add: field_simps)
  have large: "d < 2 * r \<Longrightarrow> 1 / 2 < real_of_int r / real_of_int d"
    using assms by (simp add: field_simps)
  have tie: "\<not> 2 * r < d \<Longrightarrow> \<not> d < 2 * r \<Longrightarrow> real_of_int r / real_of_int d = 1 / 2"
    using assms by (simp add: field_simps)
  show ?thesis
    unfolding roundHalfEven_def Let_def q_def [symmetric] r_def [symmetric] x
    using lo hi small large tie by (auto split: if_splits)
qed

lemma scaled_ratio:
  assumes "0 < d"
  shows "real_of_int (n * 2 ^ nat (- e)) / real_of_int (d * 2 ^ nat e)
         = (real_of_int n / real_of_int d) / 2 powi e"
proof (cases "0 \<le> e")
  case True
  then show ?thesis by (simp add: power_int_def)
next
  case False
  then show ?thesis by (simp add: power_int_def field_simps)
qed

lemma bitlen_powi_bounds:
  assumes "0 < n"
  shows "2 powi (bitlen n - 1) \<le> real_of_int n" and "real_of_int n < 2 powi (bitlen n)"
proof -
  from assms have b: "1 \<le> bitlen n"
    using bitlen_eq_zero_iff [of n] bitlen_nonneg [of n] by linarith
  from bitlen_bounds [OF assms]
  have lo: "2 ^ nat (bitlen n - 1) \<le> n" and hi: "n < 2 ^ nat (bitlen n)" by simp_all
  from lo have "real_of_int (2 ^ nat (bitlen n - 1)) \<le> real_of_int n"
    by (rule of_int_le_iff [THEN iffD2])
  then show "2 powi (bitlen n - 1) \<le> real_of_int n"
    using b by (simp add: power_int_def)
  from hi have "real_of_int n < real_of_int (2 ^ nat (bitlen n))"
    by (rule of_int_less_iff [THEN iffD2])
  then show "real_of_int n < 2 powi (bitlen n)"
    using b by (simp add: power_int_def)
qed

lemma exponent_bounds:
  assumes "0 < n" and "0 < d"
  shows "2 ^ 52 \<le> (real_of_int n / real_of_int d) / 2 powi (exponent n d)"
    and "(real_of_int n / real_of_int d) / 2 powi (exponent n d) < 2 ^ 53"
proof -
  define k where "k = bitlen n - bitlen d - 53"
  define x where "x = real_of_int n / real_of_int d"
  have dpos: "0 < real_of_int d" using assms by simp
  have xpos: "0 < x" using assms by (simp add: x_def)
  have xd: "x * real_of_int d = real_of_int n" using dpos by (simp add: x_def)
  have "2 powi (bitlen n - 1) \<le> x * real_of_int d"
    using bitlen_powi_bounds(1) [OF assms(1)] by (simp only: xd)
  also have "x * real_of_int d < x * 2 powi (bitlen d)"
    using bitlen_powi_bounds(2) [OF assms(2)] xpos by (simp only: mult_less_cancel_left_pos)
  finally have "2 powi (bitlen n - 1) / 2 powi (bitlen d) < x"
    by (simp add: field_simps)
  moreover have "(2::real) powi (bitlen n - 1) / 2 powi (bitlen d) = 2 powi (k + 52)"
  proof -
    have "k + 52 = bitlen n - 1 - bitlen d" by (simp add: k_def)
    then show ?thesis by (simp only: power_int_diff [of "2::real", simplified])
  qed
  ultimately have "2 powi (k + 52) < x"
    by simp
  then have lo: "2 ^ 52 < x / 2 powi k"
    by (simp add: power_int_add field_simps)
  have "x * 2 powi (bitlen d - 1) \<le> x * real_of_int d"
    using bitlen_powi_bounds(1) [OF assms(2)] xpos by (simp only: mult_le_cancel_left_pos)
  also have "x * real_of_int d < 2 powi (bitlen n)"
    using bitlen_powi_bounds(2) [OF assms(1)] by (simp only: xd)
  finally have "x < 2 powi (bitlen n) / 2 powi (bitlen d - 1)"
    by (simp add: field_simps)
  moreover have "(2::real) powi (bitlen n) / 2 powi (bitlen d - 1) = 2 powi (k + 54)"
  proof -
    have "k + 54 = bitlen n - (bitlen d - 1)" by (simp add: k_def)
    then show ?thesis by (simp only: power_int_diff [of "2::real", simplified])
  qed
  ultimately have "x < 2 powi (k + 54)"
    by simp
  then have hi: "x / 2 powi k < 2 ^ 54"
    by (simp add: power_int_add field_simps)
  have test: "(n * 2 ^ nat (- k) < 2 ^ 53 * (d * 2 ^ nat k)) = (x / 2 powi k < 2 ^ 53)"
  proof -
    have sd: "0 < real_of_int (d * 2 ^ nat k)" using assms by simp
    have "(n * 2 ^ nat (- k) < 2 ^ 53 * (d * 2 ^ nat k))
        = (real_of_int (n * 2 ^ nat (- k)) < real_of_int (2 ^ 53 * (d * 2 ^ nat k)))"
      by (simp only: of_int_less_iff)
    also have "\<dots> = (real_of_int (n * 2 ^ nat (- k)) / real_of_int (d * 2 ^ nat k) < 2 ^ 53)"
      using sd by (simp add: field_simps)
    also have "\<dots> = (x / 2 powi k < 2 ^ 53)"
      by (simp only: scaled_ratio [OF assms(2)] x_def)
    finally show ?thesis .
  qed
  have half: "x / 2 powi (k + 1) = (x / 2 powi k) / 2"
    by (simp add: power_int_add)
  show "2 ^ 52 \<le> (real_of_int n / real_of_int d) / 2 powi (exponent n d)"
    unfolding exponent_def Let_def k_def [symmetric] x_def [symmetric] test
    using lo half by (auto split: if_splits)
  show "(real_of_int n / real_of_int d) / 2 powi (exponent n d) < 2 ^ 53"
    unfolding exponent_def Let_def k_def [symmetric] x_def [symmetric] test
    using hi half by (auto split: if_splits)
qed

lemma binary64_error:
  assumes "0 < n" and "0 < d"
  shows "\<bar>valueOf (binary64 n d) - real_of_int n / real_of_int d\<bar>
           \<le> (real_of_int n / real_of_int d) / 2 ^ 53"
    and "0 < valueOf (binary64 n d)"
proof -
  define e where "e = exponent n d"
  define x where "x = real_of_int n / real_of_int d"
  define m where "m = roundHalfEven (n * 2 ^ nat (- e)) (d * 2 ^ nat e)"
  have v: "valueOf (binary64 n d) = real_of_int m * 2 powi e"
    by (simp add: binary64_def Let_def m_def e_def)
  have pe: "0 < (2::real) powi e" by simp
  have "0 < d * 2 ^ nat e" using assms by simp
  from roundHalfEven_error [OF this, of "n * 2 ^ nat (- e)"]
  have r: "\<bar>real_of_int m - x / 2 powi e\<bar> \<le> 1 / 2"
    by (simp only: m_def [symmetric] scaled_ratio [OF assms(2)] x_def [symmetric])
  have lo: "2 ^ 52 \<le> x / 2 powi e"
    using exponent_bounds(1) [OF assms] by (simp only: e_def x_def)
  have "real_of_int m * 2 powi e - x = (real_of_int m - x / 2 powi e) * 2 powi e"
    by (simp add: field_simps)
  then have "\<bar>real_of_int m * 2 powi e - x\<bar> = \<bar>real_of_int m - x / 2 powi e\<bar> * 2 powi e"
    by (simp add: abs_mult)
  also have "\<dots> \<le> (1 / 2) * 2 powi e"
    using r pe by (simp only: mult_le_cancel_right_pos)
  also have "\<dots> \<le> x / 2 ^ 53"
    using lo pe by (simp add: field_simps)
  finally show "\<bar>valueOf (binary64 n d) - real_of_int n / real_of_int d\<bar>
           \<le> (real_of_int n / real_of_int d) / 2 ^ 53"
    by (simp only: v x_def)
  have "(1::real) \<le> 2 ^ 52" by simp
  with r lo have "0 < real_of_int m" by linarith
  then show "0 < valueOf (binary64 n d)"
    using pe by (simp only: v zero_less_mult_iff) simp
qed

lemma denom_pos: "0 < denom x"
  by (cases x) simp

lemma ratio_valueOf: "real_of_int (numer x) / real_of_int (denom x) = valueOf x"
proof (cases x)
  case (Number m e)
  show ?thesis
  proof (cases "0 \<le> e")
    case True
    with Number show ?thesis by (simp add: power_int_def)
  next
    case False
    with Number show ?thesis by (simp add: power_int_def field_simps)
  qed
qed

lemma numer_pos_iff: "(0 < numer x) = (0 < valueOf x)"
proof (cases x)
  case (Number m e)
  have "\<not> (2::real) powi e < 0" by (simp add: not_less)
  with Number show ?thesis by (simp add: zero_less_mult_iff)
qed

lemma valueOf_fromNat: "valueOf (fromNat n) = real n"
  by (simp add: fromNat_def)

lemma divNumber_error:
  assumes "0 < valueOf x" and "0 < valueOf y"
  shows "\<bar>valueOf (divNumber x y) - valueOf x / valueOf y\<bar> \<le> (valueOf x / valueOf y) / 2 ^ 53"
    and "0 < valueOf (divNumber x y)"
proof -
  have nx: "0 < numer x" and ny: "0 < numer y"
    using assms by (simp_all add: numer_pos_iff)
  have n: "0 < numer x * denom y" and d: "0 < denom x * numer y"
    using nx ny denom_pos [of x] denom_pos [of y] by simp_all
  have dv: "divNumber x y = binary64 (numer x * denom y) (denom x * numer y)"
    using nx by (simp add: divNumber_def)
  have "real_of_int (numer x * denom y) / real_of_int (denom x * numer y)
      = (real_of_int (numer x) / real_of_int (denom x))
        / (real_of_int (numer y) / real_of_int (denom y))"
    by simp
  then have q: "real_of_int (numer x * denom y) / real_of_int (denom x * numer y)
      = valueOf x / valueOf y"
    by (simp only: ratio_valueOf)
  show "\<bar>valueOf (divNumber x y) - valueOf x / valueOf y\<bar> \<le> (valueOf x / valueOf y) / 2 ^ 53"
    using binary64_error(1) [OF n d] by (simp only: dv q)
  show "0 < valueOf (divNumber x y)"
    using binary64_error(2) [OF n d] by (simp only: dv)
qed

lemma mulNumber_error:
  assumes "0 < valueOf x" and "0 < valueOf y"
  shows "\<bar>valueOf (mulNumber x y) - valueOf x * valueOf y\<bar> \<le> (valueOf x * valueOf y) / 2 ^ 53"
proof -
  have nx: "0 < numer x" and ny: "0 < numer y"
    using assms by (simp_all add: numer_pos_iff)
  have n: "0 < numer x * numer y" and d: "0 < denom x * denom y"
    using nx ny denom_pos [of x] denom_pos [of y] by simp_all
  have dv: "mulNumber x y = binary64 (numer x * numer y) (denom x * denom y)"
    using nx ny by (simp add: mulNumber_def)
  have "real_of_int (numer x * numer y) / real_of_int (denom x * denom y)
      = (real_of_int (numer x) / real_of_int (denom x))
        * (real_of_int (numer y) / real_of_int (denom y))"
    by simp
  then have q: "real_of_int (numer x * numer y) / real_of_int (denom x * denom y)
      = valueOf x * valueOf y"
    by (simp only: ratio_valueOf)
  show ?thesis
    using binary64_error(1) [OF n d] by (simp only: dv q)
qed

lemma rate_error:
  assumes "0 < t"
  shows "\<bar>valueOf (mulNumber (divNumber (fromNat c) (fromNat t)) (fromNat 100))
            - 100 * real c / real t\<bar>
         \<le> (100 * real c / real t) / 2 ^ 51"
proof (cases "c = 0")
  case True
  with assms show ?thesis
    by (simp add: divNumber_def mulNumber_def fromNat_def)
next
  case False
  define q where "q = real c / real t"
  define q' where "q' = valueOf (divNumber (fromNat c) (fromNat t))"
  define r' where
    "r' = valueOf (mulNumber (divNumber (fromNat c) (fromNat t)) (fromNat 100))"
  have qpos: "0 < q" using False assms by (simp add: q_def)
  have vc: "0 < valueOf (fromNat c)" and vt: "0 < valueOf (fromNat t)"
    using False assms by (simp_all add: valueOf_fromNat)
  have e1: "\<bar>q' - q\<bar> \<le> q / 2 ^ 53" and q'pos: "0 < q'"
    using divNumber_error [OF vc vt] by (simp_all only: q'_def q_def valueOf_fromNat)
  have v100: "0 < valueOf (fromNat 100)" by (simp add: valueOf_fromNat)
  have e2: "\<bar>r' - q' * 100\<bar> \<le> (q' * 100) / 2 ^ 53"
    using mulNumber_error [OF divNumber_error(2) [OF vc vt] v100]
    by (simp only: r'_def q'_def valueOf_fromNat of_nat_numeral)
  have small: "q / 2 ^ 53 \<le> q" using qpos by (simp add: field_simps)
  from e1 have "q' - q \<le> q / 2 ^ 53" by (simp only: abs_le_iff)
  with small have q'le: "q' \<le> 2 * q" by simp
  have "r' - 100 * q = (r' - q' * 100) + 100 * (q' - q)" by simp
  then have "\<bar>r' - 100 * q\<bar> \<le> \<bar>r' - q' * 100\<bar> + \<bar>100 * (q' - q)\<bar>"
    by (simp only: abs_triangle_ineq)
  moreover have "\<bar>100 * (q' - q)\<bar> = 100 * \<bar>q' - q\<bar>"
    by (simp only: abs_mult abs_numeral)
  ultimately have "\<bar>r' - 100 * q\<bar> \<le> \<bar>r' - q' * 100\<bar> + 100 * \<bar>q' - q\<bar>"
    by (simp only:)
  also have "\<dots> \<le> (q' * 100) / 2 ^ 53 + 100 * (q / 2 ^ 53)"
  proof (rule add_mono [OF e2])
    show "100 * \<bar>q' - q\<bar> \<le> 100 * (q / 2 ^ 53)"
      by (rule mult_left_mono [OF e1]) simp
  qed
  also have "\<dots> \<le> (2 * q * 100) / 2 ^ 53 + 100 * (q / 2 ^ 53)"
    using q'le by (simp add: field_simps)
  also have "\<dots> \<le> (100 * q) / 2 ^ 51"
    using qpos by (simp add: field_simps)
  finally show ?thesis
    by (simp only: r'_def q_def times_divide_eq_right)
qed

section \<open>Properties of the statistics\<close>

lemma bucketCount_classifyStep:
  "completed task \<Longrightarrow>
   bucketCount b (classifyStep task s) = bucketCount b s + (if firstMatch task = Some b then 1 else 0)"
  by (cases b)
     (auto simp: classifyStep_def firstMatch_def bucketOrder_def isAfter_def split: option.splits)

lemma bucketCount_fold_classifyStep:
  "list_all completed ts \<Longrightarrow>
   bucketCount b (fold classifyStep ts s)
     = bucketCount b s + length (filter (\<lambda>t. firstMatch t = Some b) ts)"
  by (induction ts arbitrary: s) (simp_all add: bucketCount_classifyStep)

lemma bucketCount_overdueStep: "bucketCount b (overdueStep now task s) = bucketCount b s"
  by (cases b) (simp_all add: overdueStep_def)

lemma bucketCount_fold_overdueStep: "bucketCount b (fold (overdueStep now) ts s) = bucketCount b s"
  by (induction ts arbitrary: s) (simp_all add: bucketCount_overdueStep)

lemma firstMatch_completed: "firstMatch t = Some b \<Longrightarrow> completed t"
  by (auto simp: firstMatch_def split: option.splits if_splits)

lemma filter_firstMatch_completed:
  "filter (\<lambda>t. firstMatch t = Some b) (filter completed ts) = filter (\<lambda>t. firstMatch t = Some b) ts"
  by (induction ts) (auto dest: firstMatch_completed)

lemma bucketCount_getTaskStats:
  "bucketCount b (getTaskStats tasks now) = length (filter (\<lambda>t. firstMatch t = Some b) tasks)"
proof -
  have "list_all completed (filter completed tasks)"
    by (simp add: list_all_iff)
  then have "bucketCount b (fold classifyStep (filter completed tasks) s)
      = bucketCount b s + length (filter (\<lambda>t. firstMatch t = Some b) tasks)" for s
    by (simp only: bucketCount_fold_classifyStep filter_firstMatch_completed)
  then show ?thesis
    by (cases b) (simp_all add: getTaskStats_def Let_def bucketCount_fold_overdueStep)
qed

lemma completedCount_fold_classifyStep: "completedCount (fold classifyStep ts s) = completedCount s"
  by (induction ts arbitrary: s) (auto simp: classifyStep_def split: option.splits)

lemma completedCount_fold_overdueStep: "completedCount (fold (overdueStep now) ts s) = completedCount s"
  by (induction ts arbitrary: s) (auto simp: overdueStep_def)

lemma completedCount_getTaskStats: "completedCount (getTaskStats tasks now) = length (filter completed tasks)"
  by (simp add: getTaskStats_def Let_def completedCount_fold_classifyStep completedCount_fold_overdueStep)

lemma totalTasks_fold_classifyStep: "totalTasks (fold classifyStep ts s) = totalTasks s"
  by (induction ts arbitrary: s) (auto simp: classifyStep_def split: option.splits)

lemma totalTasks_fold_overdueStep: "totalTasks (fold (overdueStep now) ts s) = totalTasks s"
  by (induction ts arbitrary: s) (auto simp: overdueStep_def)

lemma totalTasks_getTaskStats: "totalTasks (getTaskStats tasks now) = length tasks"
  by (simp add: getTaskStats_def Let_def totalTasks_fold_classifyStep totalTasks_fold_overdueStep)

lemma buckets_partition:
  "length (filter (\<lambda>t. firstMatch t = Some BeforeSafeDate) ts)
   + length (filter (\<lambda>t. firstMatch t = Some OnSafeDate) ts)
   + length (filter (\<lambda>t. firstMatch t = Some OnDeadline) ts)
   + length (filter (\<lambda>t. firstMatch t = Some AfterDeadline) ts)
   \<le> length (filter completed ts)"
proof (induction ts)
  case Nil
  then show ?case by simp
next
  case (Cons t ts)
  show ?case
  proof (cases "firstMatch t")
    case None
    with Cons show ?thesis by simp
  next
    case (Some b)
    then have "completed t" by (rule firstMatch_completed)
    with Some Cons show ?thesis by (cases b) simp_all
  qed
qed

text \<open>
  Claim C3.  Each of the four counts is the number of completed tasks with a completion
  date whose first satisfied rule, in the order beforeSafeDate, onSafeDate, onDeadline,
  afterDeadline, is the rule of that count.  So a task is counted in at most one
  bucket, and the four counts together do not exceed the number of completed tasks.
  A completed task whose deadline equals its safe date is never counted in
  onDeadline, and when it was completed at the very instant of the safe date it is
  counted in onSafeDate.
\<close>

theorem classification_first_match:
  "(\<forall>b. bucketCount b (getTaskStats tasks now)
          = length (filter (\<lambda>t. firstMatch t = Some b) tasks))
   \<and> beforeSafeDate (getTaskStats tasks now) + onSafeDate (getTaskStats tasks now)
       + onDeadline (getTaskStats tasks now) + afterDeadline (getTaskStats tasks now)
       \<le> completedCount (getTaskStats tasks now)
   \<and> (completed task \<and> completionDate task = Some c \<and> safeDate task = deadlineDate task \<longrightarrow>
       onDeadline (getTaskStats [task] now) = 0
       \<and> (c = safeDate task \<longrightarrow> onSafeDate (getTaskStats [task] now) = 1))"
proof (intro conjI allI impI)
  fix b
  show "bucketCount b (getTaskStats tasks now) = length (filter (\<lambda>t. firstMatch t = Some b) tasks)"
    by (rule bucketCount_getTaskStats)
next
  show "beforeSafeDate (getTaskStats tasks now) + onSafeDate (getTaskStats tasks now)
       + onDeadline (getTaskStats tasks now) + afterDeadline (getTaskStats tasks now)
       \<le> completedCount (getTaskStats tasks now)"
    using buckets_partition [of tasks]
      bucketCount_getTaskStats [of BeforeSafeDate tasks now]
      bucketCount_getTaskStats [of OnSafeDate tasks now]
      bucketCount_getTaskStats [of OnDeadline tasks now]
      bucketCount_getTaskStats [of AfterDeadline tasks now]
    by (simp add: completedCount_getTaskStats)
next
  assume a: "completed task \<and> completionDate task = Some c \<and> safeDate task = deadlineDate task"
  then have "firstMatch task \<noteq> Some OnDeadline"
    by (simp add: firstMatch_def bucketOrder_def)
  then show "onDeadline (getTaskStats [task] now) = 0"
    using bucketCount_getTaskStats [of OnDeadline "[task]" now] by simp
  assume "c = safeDate task"
  with a have "firstMatch task = Some OnSafeDate"
    by (simp add: firstMatch_def bucketOrder_def differenceInDays_def)
  then show "onSafeDate (getTaskStats [task] now) = 1"
    using bucketCount_getTaskStats [of OnSafeDate "[task]" now] by simp
qed

theorem classification_first_match_witness:
  "(let t = \<lparr>id_task = 1, name = ''a'', description = ''b'', deadlineDate = 1736035200000,
              safeDate = 1736035200000, completed = True,
              completionDate = Some 1736035200000\<rparr>
    in completed t \<and> completionDate t = Some (safeDate t) \<and> safeDate t = deadlineDate t
       \<and> onSafeDate (getTaskStats [t] 0) = 1
       \<and> onDeadline (getTaskStats [t] 0) = 0)"
  unfolding Let_def
  using classification_first_match [of "[]" 0
      "\<lparr>id_task = 1, name = ''a'', description = ''b'', deadlineDate = 1736035200000,
              safeDate = 1736035200000, completed = True,
              completionDate = Some 1736035200000\<rparr>" 1736035200000]
  by simp

text \<open>
  Claim C7.  There is a collection with a completed task, completed strictly after its
  safe date and strictly before its deadline and within a full day of neither, that
  is counted in \<open>completedCount\<close> and in none of the four buckets: the scenario task,
  completed on 2025-01-07.
\<close>

theorem completed_task_in_no_bucket:
  "\<exists>tasks task c.
     task \<in> set tasks \<and> completed task \<and> completionDate task = Some c
     \<and> safeDate task < c \<and> c < deadlineDate task
     \<and> differenceInDays c (safeDate task) \<noteq> 0
     \<and> differenceInDays c (deadlineDate task) \<noteq> 0
     \<and> completedCount (getTaskStats tasks now) = 1
     \<and> beforeSafeDate (getTaskStats tasks now) = 0
     \<and> onSafeDate (getTaskStats tasks now) = 0
     \<and> onDeadline (getTaskStats tasks now) = 0
     \<and> afterDeadline (getTaskStats tasks now) = 0"
proof (intro exI conjI)
  let ?t = "report\<lparr>completed := True, completionDate := Some 1736208000000\<rparr>"
  show "?t \<in> set [?t]" by simp
  show "completed ?t" by simp
  show "completionDate ?t = Some 1736208000000" by simp
  show "safeDate ?t < 1736208000000" by (simp add: report_def)
  show "1736208000000 < deadlineDate ?t" by (simp add: report_def)
  show "differenceInDays 1736208000000 (safeDate ?t) \<noteq> 0"
    by (simp add: report_def differenceInDays_def msPerDay_def)
  show "differenceInDays 1736208000000 (deadlineDate ?t) \<noteq> 0"
    by (simp add: report_def differenceInDays_def msPerDay_def)
  note ev = getTaskStats_def classifyStep_def overdueStep_def isAfter_def differenceInDays_def
    msPerDay_def report_def Let_def
  show "completedCount (getTaskStats [?t] now) = 1" by (simp add: ev)
  show "beforeSafeDate (getTaskStats [?t] now) = 0" by (simp add: ev)
  show "onSafeDate (getTaskStats [?t] now) = 0" by (simp add: ev)
  show "onDeadline (getTaskStats [?t] now) = 0" by (simp add: ev)
  show "afterDeadline (getTaskStats [?t] now) = 0" by (simp add: ev)
qed

subsection \<open>The completion rate\<close>

lemma completionRate_fold_classifyStep: "completionRate (fold classifyStep ts s) = completionRate s"
  by (induction ts arbitrary: s) (auto simp: classifyStep_def split: option.splits)

lemma completionRate_fold_overdueStep:
  "completionRate (fold (overdueStep now) ts s) = completionRate s"
  by (induction ts arbitrary: s) (auto simp: overdueStep_def)

lemma completionRate_getTaskStats:
  "completionRate (getTaskStats tasks now) =
     (if length tasks \<noteq> 0
      then mulNumber (divNumber (fromNat (length (filter completed tasks))) (fromNat (length tasks)))
             (fromNat 100)
      else fromNat 0)"
  by (simp add: getTaskStats_def Let_def completionRate_fold_classifyStep
        completionRate_fold_overdueStep)

text \<open>
  Claim C6, as the code has it.  \<open>totalTasks\<close> is the size of the collection and
  \<open>completedCount\<close> the number of its tasks with \<open>completed\<close> set.  The completion
  rate is 0 for the empty collection.  Otherwise it is the double
  \<open>(completedCount / totalTasks) * 100\<close>, two roundings away from the exact
  \<open>100 * completedCount / totalTasks\<close>: the two differ by at most the fraction
  \<open>1 / 2 ^ 51\<close> of the exact value.
\<close>

theorem completionRate_within_rounding:
  "valueOf (completionRate (getTaskStats [] now)) = 0
   \<and> totalTasks (getTaskStats tasks now) = length tasks
   \<and> completedCount (getTaskStats tasks now) = length (filter completed tasks)
   \<and> (tasks \<noteq> [] \<longrightarrow>
        \<bar>valueOf (completionRate (getTaskStats tasks now))
           - 100 * real (completedCount (getTaskStats tasks now))
               / real (totalTasks (getTaskStats tasks now))\<bar>
        \<le> (100 * real (completedCount (getTaskStats tasks now))
               / real (totalTasks (getTaskStats tasks now))) / 2 ^ 51)"
proof (intro conjI impI)
  show "valueOf (completionRate (getTaskStats [] now)) = 0"
    by (simp add: completionRate_getTaskStats fromNat_def)
  show "totalTasks (getTaskStats tasks now) = length tasks"
    by (rule totalTasks_getTaskStats)
  show "completedCount (getTaskStats tasks now) = length (filter completed tasks)"
    by (rule completedCount_getTaskStats)
  assume "tasks \<noteq> []"
  then have pos: "0 < length tasks" by simp
  then have "completionRate (getTaskStats tasks now)
      = mulNumber (divNumber (fromNat (length (filter completed tasks))) (fromNat (length tasks)))
          (fromNat 100)"
    by (simp add: completionRate_getTaskStats)
  then show "\<bar>valueOf (completionRate (getTaskStats tasks now))
           - 100 * real (completedCount (getTaskStats tasks now))
               / real (totalTasks (getTaskStats tasks now))\<bar>
        \<le> (100 * real (completedCount (getTaskStats tasks now))
               / real (totalTasks (getTaskStats tasks now))) / 2 ^ 51"
    using rate_error [OF pos, of "length (filter completed tasks)"]
    by (simp only: totalTasks_getTaskStats completedCount_getTaskStats)
qed

theorem completionRate_within_rounding_witness:
  "[reportDone, report, report] \<noteq> []
   \<and> totalTasks (getTaskStats [reportDone, report, report] 0) = 3
   \<and> completedCount (getTaskStats [reportDone, report, report] 0) = 1
   \<and> \<bar>valueOf (completionRate (getTaskStats [reportDone, report, report] 0)) - 100 / 3\<bar>
       \<le> (100 / 3) / 2 ^ 51"
proof -
  note th = completionRate_within_rounding [of 0 "[reportDone, report, report]"]
  have ne: "[reportDone, report, report] \<noteq> []" by simp
  have t: "totalTasks (getTaskStats [reportDone, report, report] 0) = 3"
    using th by simp
  have c: "completedCount (getTaskStats [reportDone, report, report] 0) = 1"
    using th by (simp add: reportDone_def report_def)
  from th ne have "\<bar>valueOf (completionRate (getTaskStats [reportDone, report, report] 0))
           - 100 * real (completedCount (getTaskStats [reportDone, report, report] 0))
               / real (totalTasks (getTaskStats [reportDone, report, report] 0))\<bar>
        \<le> (100 * real (completedCount (getTaskStats [reportDone, report, report] 0))
               / real (totalTasks (getTaskStats [reportDone, report, report] 0))) / 2 ^ 51"
    by blast
  then have "\<bar>valueOf (completionRate (getTaskStats [reportDone, report, report] 0)) - 100 / 3\<bar>
       \<le> (100 / 3) / 2 ^ 51"
    unfolding t c by simp
  with ne t c show ?thesis by (intro conjI)
qed

lemma completionRate_11_of_20:
  "completionRate (getTaskStats (replicate 11 reportDone @ replicate 9 report) now)
     = Number 7740561859543041 (- 47)"
  by (simp add: completionRate_getTaskStats reportDone_def report_def
        mulNumber_def divNumber_def fromNat_def binary64_def exponent_def roundHalfEven_def
        compute_bitlen Let_def)

text \<open>
  Claim C6 as stated fails: with 11 of 20 tasks completed the exact rate is 55, and
  the code computes the next double above it (printed 55.00000000000001).
\<close>

theorem completionRate_counterexample:
  "totalTasks (getTaskStats (replicate 11 reportDone @ replicate 9 report) 0) = 20
   \<and> completedCount (getTaskStats (replicate 11 reportDone @ replicate 9 report) 0) = 11
   \<and> valueOf (completionRate (getTaskStats (replicate 11 reportDone @ replicate 9 report) 0))
       = 55 + 1 / 2 ^ 47
   \<and> valueOf (completionRate (getTaskStats (replicate 11 reportDone @ replicate 9 report) 0))
       \<noteq> 100 * real (completedCount (getTaskStats (replicate 11 reportDone @ replicate 9 report) 0))
           / real (totalTasks (getTaskStats (replicate 11 reportDone @ replicate 9 report) 0))"
proof -
  have t: "totalTasks (getTaskStats (replicate 11 reportDone @ replicate 9 report) 0) = 20"
    by (simp add: totalTasks_getTaskStats)
  have c: "completedCount (getTaskStats (replicate 11 reportDone @ replicate 9 report) 0) = 11"
    by (simp add: completedCount_getTaskStats reportDone_def report_def)
  have v: "valueOf (completionRate (getTaskStats (replicate 11 reportDone @ replicate 9 report) 0))
       = 55 + 1 / 2 ^ 47"
    by (simp add: completionRate_11_of_20 power_int_minus field_simps)
  show ?thesis
    unfolding t c v by simp
qed

end
